theory Spec2Isabelle
  imports Main "HOL-Library.Sublist"
begin

section \<open>Python strings\<close>

text \<open>
  A Python \<open>str\<close> is modelled as a \<open>string\<close> whose characters are the code points
  below 256. On that range \<open>str.isspace\<close> holds for the code points 9 to 13, 28 to 32,
  133 and 160, and \<open>str.lower\<close> adds 32 to the code points 65 to 90 and 192 to 222
  except 215, and leaves every other one alone.
\<close>

definition newline :: char where
  "newline = char_of (10::nat)"

definition isspace :: "char \<Rightarrow> bool" where
  "isspace c =
     (let n = (of_char c :: nat)
      in (9 \<le> n \<and> n \<le> 13) \<or> (28 \<le> n \<and> n \<le> 32) \<or> n = 133 \<or> n = 160)"

definition lower_char :: "char \<Rightarrow> char" where
  "lower_char c =
     (let n = (of_char c :: nat)
      in if (65 \<le> n \<and> n \<le> 90) \<or> (192 \<le> n \<and> n \<le> 222 \<and> n \<noteq> 215)
         then char_of (n + 32) else c)"

definition lower :: "string \<Rightarrow> string" where
  "lower s = map lower_char s"

definition strip :: "string \<Rightarrow> string" where
  "strip s = rev (dropWhile isspace (rev (dropWhile isspace s)))"

text \<open>\<open>s.startswith(p)\<close>.\<close>

fun startswith :: "string \<Rightarrow> string \<Rightarrow> bool" where
  "startswith s [] = True"
| "startswith [] (p # ps) = False"
| "startswith (c # cs) (p # ps) = (c = p \<and> startswith cs ps)"

text \<open>\<open>p in s\<close>: the pattern occurs in \<open>s\<close> as a contiguous substring.\<close>

fun contains :: "string \<Rightarrow> string \<Rightarrow> bool" where
  "contains [] p = startswith [] p"
| "contains (c # cs) p = (startswith (c # cs) p \<or> contains cs p)"

text \<open>
  \<open>s.split('\n')\<close>: never empty, the empty string gives one empty line (so the last
  case below is never taken).
\<close>

fun split_lines :: "string \<Rightarrow> string list" where
  "split_lines [] = [[]]"
| "split_lines (c # cs) =
     (if c = newline then [] # split_lines cs
      else (case split_lines cs of
              line # rest \<Rightarrow> (c # line) # rest
            | [] \<Rightarrow> [[c]]))"

section \<open>Python values\<close>

datatype pyval =
    VStr string
  | VInt int
  | VBool bool
  | VNone
  | VList "pyval list"
  | VDict "(string \<times> pyval) list"

type_synonym pydict = "(string \<times> pyval) list"

text \<open>\<open>d[k]\<close> read as \<open>d.get(k)\<close>: \<open>None\<close> when the key is absent.\<close>

definition lookup :: "pydict \<Rightarrow> string \<Rightarrow> pyval option" where
  "lookup d k = map_of d k"

section \<open>Security scanner\<close>

definition dangerous_patterns :: "(string \<times> string) list" where
  "dangerous_patterns =
    [(''eval('', ''Dangerous use of eval() - can execute arbitrary code''),
     (''exec('', ''Dangerous use of exec() - can execute arbitrary code''),
     (''pickle.loads'', ''Unsafe deserialization with pickle - can execute code''),
     (''__import__'', ''Dynamic imports can be security risk''),
     (''os.system'', ''Direct system calls - prefer subprocess with shell=False''),
     (''shell=True'', ''Shell injection risk - avoid shell=True in subprocess''),
     (''sql'', ''Potential SQL injection - use parameterized queries''),
     (''password'', ''Hardcoded password detected - use environment variables''),
     (''api_key'', ''Hardcoded API key detected - use environment variables''),
     (''SECRET'', ''Hardcoded secret detected - use environment variables'')]"

definition security_finding :: "nat \<Rightarrow> string \<Rightarrow> string \<Rightarrow> string \<Rightarrow> pydict" where
  "security_finding i line pattern message =
    [(''line'', VInt (int i)),
     (''pattern'', VStr pattern),
     (''message'', VStr message),
     (''severity'',
        VStr (if pattern \<in> set [''eval('', ''exec('', ''pickle.loads''] then ''HIGH'' else ''MEDIUM'')),
     (''code_snippet'', VStr (strip line))]"

text \<open>The inner loop: one line against every pattern of the table, in table order.\<close>

definition security_line :: "pydict list \<Rightarrow> nat \<times> string \<Rightarrow> pydict list" where
  "security_line security_issues il =
    (case il of (i, line) \<Rightarrow>
      let line_lower = lower line
      in foldl (\<lambda>acc pm. case pm of (pattern, message) \<Rightarrow>
                  if contains line_lower pattern
                  then acc @ [security_finding i line pattern message] else acc)
               security_issues dangerous_patterns)"

text \<open>The outer loop, over \<open>enumerate(lines, 1)\<close>.\<close>

definition security_issues :: "string \<Rightarrow> pydict list" where
  "security_issues code = foldl security_line [] (enumerate 1 (split_lines code))"

definition check_security_issues :: "string \<Rightarrow> pydict" where
  "check_security_issues code =
    (let security_issues = security_issues code
     in [(''status'', VStr ''success''),
         (''issues_found'', VInt (int (length security_issues))),
         (''security_issues'', VList (map VDict security_issues)),
         (''safe'', VBool (length security_issues = 0))])"

section \<open>Performance scanner\<close>

definition patterns :: "(string \<times> string) list" where
  "patterns =
    [(''for i in range(len('', ''Use enumerate() instead of range(len())''),
     (''.append('', ''Consider list comprehension if building list in loop''),
     (''global '', ''Global variables can hurt performance and readability''),
     (''+ str('', ''String concatenation in loop - use join() or f-strings''),
     (''try:'', ''Empty except blocks hide errors (if found)'')]"

definition performance_finding :: "nat \<Rightarrow> string \<Rightarrow> string \<Rightarrow> string \<Rightarrow> pydict" where
  "performance_finding i message severity stripped =
    [(''line'', VInt (int i)),
     (''message'', VStr message),
     (''severity'', VStr severity),
     (''code_snippet'', VStr stripped)]"

text \<open>The loop flag after the \<open>if\<close>/\<open>elif\<close> at the head of the loop body.\<close>

definition track_loop :: "bool \<Rightarrow> string \<Rightarrow> bool" where
  "track_loop in_loop stripped =
    (if startswith stripped ''for '' \<or> startswith stripped ''while '' then True
     else if stripped \<noteq> [] \<and> \<not> startswith stripped '' '' \<and> in_loop then False
     else in_loop)"

text \<open>The inner loop over the pattern table, for one line and the flag as it is then.\<close>

definition performance_patterns :: "bool \<Rightarrow> nat \<Rightarrow> string \<Rightarrow> pydict list \<Rightarrow> pydict list" where
  "performance_patterns in_loop i stripped performance_issues =
    foldl (\<lambda>acc pm. case pm of (pattern, message) \<Rightarrow>
             if contains stripped pattern then
               (if pattern = ''.append('' \<and> in_loop
                then acc @ [performance_finding i message ''LOW'' stripped]
                else if pattern \<noteq> ''.append(''
                then acc @ [performance_finding i message ''MEDIUM'' stripped]
                else acc)
             else acc)
          performance_issues patterns"

text \<open>One iteration of the outer loop; the state is the flag and the findings so far.\<close>

definition performance_line :: "bool \<times> pydict list \<Rightarrow> nat \<times> string \<Rightarrow> bool \<times> pydict list" where
  "performance_line st il =
    (case st of (in_loop, performance_issues) \<Rightarrow>
     case il of (i, line) \<Rightarrow>
       let stripped = strip line;
           in_loop = track_loop in_loop stripped
       in (in_loop, performance_patterns in_loop i stripped performance_issues))"

definition performance_scan :: "string \<Rightarrow> bool \<times> pydict list" where
  "performance_scan code = foldl performance_line (False, []) (enumerate 1 (split_lines code))"

definition performance_issues :: "string \<Rightarrow> pydict list" where
  "performance_issues code = snd (performance_scan code)"

definition check_performance_issues :: "string \<Rightarrow> pydict" where
  "check_performance_issues code =
    (let performance_issues = performance_issues code
     in [(''status'', VStr ''success''),
         (''issues_found'', VInt (int (length performance_issues))),
         (''performance_issues'', VList (map VDict performance_issues)),
         (''optimized'', VBool (length performance_issues = 0))])"

section \<open>Syntax trees\<close>

text \<open>
  The nodes of Python's \<open>ast\<close> module that the analyzers look at, each with the child
  nodes \<open>ast.iter_child_nodes\<close> yields for it, in field order. \<open>OtherNode\<close> stands for
  every other statement or expression class and carries its child nodes. A selector
  applied to a node of another class is the attribute that node does not have; the
  analyzers read an attribute only after the \<open>isinstance\<close> test for its class, and
  \<open>ast.parse\<close> always stores an \<open>arguments\<close> node in \<open>args\<close> and \<open>alias\<close> nodes in
  \<open>names\<close>.
\<close>

datatype py_constant = CStr string | COther

datatype ast =
    is_Module: Module (body: "ast list")
  | is_FunctionDef: FunctionDef (name: string) (args: ast) (body: "ast list")
      (decorator_list: "ast list") (returns: "ast option") (lineno: nat)
  | is_AsyncFunctionDef: AsyncFunctionDef (name: string) (args: ast) (body: "ast list")
      (decorator_list: "ast list") (returns: "ast option") (lineno: nat)
  | is_ClassDef: ClassDef (name: string) (bases: "ast list") (class_keywords: "ast list")
      (body: "ast list") (decorator_list: "ast list") (lineno: nat)
  | is_Return: Return (return_value: "ast option")
  | is_Import: Import (names: "ast list")
  | is_ImportFrom: ImportFrom (from_module: "string option") (names: "ast list") (level: nat)
  | is_Alias: Alias (name: string) (asname: "string option")
  | is_Arguments: Arguments (posonlyargs: "ast list") (arg_list: "ast list")
      (other_args: "ast list")
  | is_Arg: Arg (arg_name: string) (annotation: "ast option")
  | is_Expr: Expr (expr_value: ast)
  | is_Constant: Constant (constant_value: py_constant)
  | is_OtherNode: OtherNode (children: "ast list")

text \<open>
  The exceptions \<open>ast.parse\<close> raises, each with its \<open>str(e)\<close>: a \<open>SyntaxError\<close>, or
  another instance of \<open>Exception\<close> (\<open>ValueError\<close>, \<open>RecursionError\<close>, \<open>MemoryError\<close>), which
  the handlers of the analyzers catch as well.
\<close>

datatype py_exception = SyntaxError string | OtherException string

fun str_exception :: "py_exception \<Rightarrow> string" where
  "str_exception (SyntaxError m) = m"
| "str_exception (OtherException m) = m"

fun opt_node :: "ast option \<Rightarrow> ast list" where
  "opt_node None = []"
| "opt_node (Some n) = [n]"

fun iter_child_nodes :: "ast \<Rightarrow> ast list" where
  "iter_child_nodes (Module b) = b"
| "iter_child_nodes (FunctionDef n a b d r l) = a # b @ d @ opt_node r"
| "iter_child_nodes (AsyncFunctionDef n a b d r l) = a # b @ d @ opt_node r"
| "iter_child_nodes (ClassDef n bs ks b d l) = bs @ ks @ b @ d"
| "iter_child_nodes (Return v) = opt_node v"
| "iter_child_nodes (Import ns) = ns"
| "iter_child_nodes (ImportFrom m ns lv) = ns"
| "iter_child_nodes (Alias n a) = []"
| "iter_child_nodes (Arguments po a rest) = po @ a @ rest"
| "iter_child_nodes (Arg n ann) = opt_node ann"
| "iter_child_nodes (Expr v) = [v]"
| "iter_child_nodes (Constant c) = []"
| "iter_child_nodes (OtherNode cs) = cs"

text \<open>
  \<open>ast.walk\<close>: a queue of nodes to visit; each node taken from the front has its
  children put at the back.
\<close>

function walk_queue :: "ast list \<Rightarrow> ast list" where
  "walk_queue [] = []"
| "walk_queue (node # todo) = node # walk_queue (todo @ iter_child_nodes node)"
  by pat_completeness auto
termination
proof (relation "measure (\<lambda>todo. sum_list (map (\<lambda>n. Suc (size n)) todo))")
  show "wf (measure (\<lambda>todo. sum_list (map (\<lambda>n. Suc (size n)) todo)))"
    by simp
next
  fix node :: ast and todo :: "ast list"
  have opt: "sum_list (map (\<lambda>n. Suc (size n)) (opt_node r)) \<le> size_option size r"
    for r :: "ast option"
    by (cases r) simp_all
  have lst: "sum_list (map (\<lambda>n. Suc (size n)) ns) = size_list size ns" for ns :: "ast list"
    by (induction ns) simp_all
  have "sum_list (map (\<lambda>n. Suc (size n)) (iter_child_nodes node)) \<le> size node"
  proof (cases node)
    case (FunctionDef n a b d r l)
    then show ?thesis using opt [of r] by (simp add: lst)
  next
    case (AsyncFunctionDef n a b d r l)
    then show ?thesis using opt [of r] by (simp add: lst)
  next
    case (Return v)
    then show ?thesis using opt [of v] by simp
  next
    case (Arg n ann)
    then show ?thesis using opt [of ann] by simp
  qed (simp_all add: lst)
  then show "(todo @ iter_child_nodes node, node # todo)
      \<in> measure (\<lambda>todo. sum_list (map (\<lambda>n. Suc (size n)) todo))"
    by simp
qed

definition walk :: "ast \<Rightarrow> ast list" where
  "walk node = walk_queue [node]"

text \<open>
  \<open>ast.get_docstring\<close>, with \<open>inspect.cleandoc\<close> taken as a parameter: the cleaned text
  of a string constant that is the first statement of the body.
\<close>

definition get_docstring :: "(string \<Rightarrow> string) \<Rightarrow> ast \<Rightarrow> string option" where
  "get_docstring cleandoc node =
    (case body node of
       [] \<Rightarrow> None
     | first # _ \<Rightarrow>
        (if is_Expr first then
           (case expr_value first of
              Constant (CStr text) \<Rightarrow> Some (cleandoc text)
            | _ \<Rightarrow> None)
         else None))"

text \<open>\<open>str(n)\<close> for a non-negative integer.\<close>

fun str_nat :: "nat \<Rightarrow> string" where
  "str_nat n =
    (if n < 10 then [char_of (48 + n)]
     else str_nat (n div 10) @ [char_of (48 + n mod 10)])"

section \<open>Structure analyzer\<close>

text \<open>The lists of the \<open>analysis\<close> dictionary that the walk appends to.\<close>

record analysis =
  an_functions :: "pyval list"
  an_classes :: "pyval list"
  an_imports :: "pyval list"
  an_lines_of_code :: int
  an_issues :: "pyval list"

definition analysis_dict :: "analysis \<Rightarrow> pydict" where
  "analysis_dict analysis =
    [(''status'', VStr ''success''),
     (''functions'', VList (an_functions analysis)),
     (''classes'', VList (an_classes analysis)),
     (''imports'', VList (an_imports analysis)),
     (''lines_of_code'', VInt (an_lines_of_code analysis)),
     (''issues'', VList (an_issues analysis))]"

definition module_value :: "string option \<Rightarrow> pyval" where
  "module_value m = (case m of None \<Rightarrow> VNone | Some s \<Rightarrow> VStr s)"

text \<open>One iteration of the loop over \<open>ast.walk(tree)\<close>.\<close>

definition structure_visit :: "(string \<Rightarrow> string) \<Rightarrow> analysis \<Rightarrow> ast \<Rightarrow> analysis" where
  "structure_visit cleandoc analysis node =
    (if is_FunctionDef node then
       (let nargs = length (arg_list (args node));
            has_docstring = (get_docstring cleandoc node \<noteq> None);
            func_info =
              [(''name'', VStr (name node)),
               (''args'', VInt (int nargs)),
               (''line_number'', VInt (int (lineno node))),
               (''has_docstring'', VBool has_docstring)];
            analysis = analysis\<lparr>an_functions := an_functions analysis @ [VDict func_info]\<rparr>;
            analysis =
              (if \<not> has_docstring
               then analysis\<lparr>an_issues := an_issues analysis @
                      [VStr (''Function '' @ [CHR 0x27] @ name node @ [CHR 0x27] @ '' at line '' @
                             str_nat (lineno node) @ '' missing docstring'')]\<rparr>
               else analysis)
        in if nargs > 5
           then analysis\<lparr>an_issues := an_issues analysis @
                  [VStr (''Function '' @ [CHR 0x27] @ name node @ [CHR 0x27] @ '' has '' @
                         str_nat nargs @ '' parameters (>5 suggests complexity)'')]\<rparr>
           else analysis)
     else if is_ClassDef node then
       (let has_docstring = (get_docstring cleandoc node \<noteq> None);
            class_info =
              [(''name'', VStr (name node)),
               (''line_number'', VInt (int (lineno node))),
               (''methods'', VInt (int (length (filter is_FunctionDef (body node))))),
               (''has_docstring'', VBool has_docstring)];
            analysis = analysis\<lparr>an_classes := an_classes analysis @ [VDict class_info]\<rparr>
        in if \<not> has_docstring
           then analysis\<lparr>an_issues := an_issues analysis @
                  [VStr (''Class '' @ [CHR 0x27] @ name node @ [CHR 0x27] @ '' at line '' @
                         str_nat (lineno node) @ '' missing docstring'')]\<rparr>
           else analysis)
     else if is_Import node \<or> is_ImportFrom node then
       (if is_Import node
        then foldl (\<lambda>analysis alias.
                      analysis\<lparr>an_imports := an_imports analysis @ [VStr (name alias)]\<rparr>)
                   analysis (names node)
        else analysis\<lparr>an_imports := an_imports analysis @ [module_value (from_module node)]\<rparr>)
     else analysis)"

definition structure_walk :: "(string \<Rightarrow> string) \<Rightarrow> string \<Rightarrow> ast \<Rightarrow> analysis" where
  "structure_walk cleandoc code tree =
    foldl (structure_visit cleandoc)
      \<lparr>an_functions = [], an_classes = [], an_imports = [],
       an_lines_of_code = int (length (split_lines code)), an_issues = []\<rparr>
      (walk tree)"

text \<open>
  The parser \<open>ast.parse\<close> is a parameter: it returns the tree or the exception it raised.
\<close>

definition analyze_code_structure ::
  "(string \<Rightarrow> py_exception + ast) \<Rightarrow> (string \<Rightarrow> string) \<Rightarrow> string \<Rightarrow> pydict" where
  "analyze_code_structure ast_parse cleandoc code =
    (case ast_parse code of
       Inr tree \<Rightarrow> analysis_dict (structure_walk cleandoc code tree)
     | Inl (SyntaxError m) \<Rightarrow>
         [(''status'', VStr ''error''),
          (''error_message'', VStr (''Syntax error in code: '' @ str_exception (SyntaxError m)))]
     | Inl e \<Rightarrow>
         [(''status'', VStr ''error''),
          (''error_message'', VStr (''Error analyzing code: '' @ str_exception e))])"

section \<open>Documentation auditor\<close>

definition doc_finding :: "ast \<Rightarrow> string \<Rightarrow> string \<Rightarrow> string \<Rightarrow> pydict" where
  "doc_finding node node_type issue severity =
    [(''line'', VInt (int (lineno node))),
     (''element'', VStr (name node)),
     (''type'', VStr node_type),
     (''issue'', VStr issue),
     (''severity'', VStr severity)]"

text \<open>\<open>any(isinstance(n, ast.Return) for n in ast.walk(node) if n != node)\<close>.\<close>

definition has_return :: "ast \<Rightarrow> bool" where
  "has_return node = list_ex is_Return (filter (\<lambda>n. n \<noteq> node) (walk node))"

text \<open>One iteration of the loop over \<open>ast.walk(tree)\<close>: the findings list, updated.\<close>

definition doc_visit :: "(string \<Rightarrow> string) \<Rightarrow> pydict list \<Rightarrow> ast \<Rightarrow> pydict list" where
  "doc_visit cleandoc doc_issues node =
    (if is_FunctionDef node \<or> is_ClassDef node then
       (let docstring = get_docstring cleandoc node;
            node_type = (if is_FunctionDef node then ''Function'' else ''Class'')
        in case docstring of
             None \<Rightarrow> doc_issues @ [doc_finding node node_type ''Missing docstring'' ''HIGH'']
           | Some doc \<Rightarrow>
              if doc = [] then
                doc_issues @ [doc_finding node node_type ''Missing docstring'' ''HIGH'']
              else if length doc < 20 then
                doc_issues @
                  [doc_finding node node_type ''Docstring too brief (< 20 chars)'' ''MEDIUM'']
              else if is_FunctionDef node then
                (let has_params = (length (arg_list (args node)) > 0);
                     mentions_params = (contains doc ''Args:'' \<or> contains doc ''Parameters:'');
                     doc_issues =
                       (if has_params \<and> \<not> mentions_params
                        then doc_issues @
                          [doc_finding node node_type
                             (''Docstring doesn'' @ [CHR 0x27] @ ''t document parameters'') ''MEDIUM'']
                        else doc_issues);
                     mentions_return = (contains doc ''Returns:'' \<or> contains doc ''Return:'')
                 in if has_return node \<and> \<not> mentions_return
                    then doc_issues @
                      [doc_finding node node_type
                         (''Docstring doesn'' @ [CHR 0x27] @ ''t document return value'') ''LOW'']
                    else doc_issues)
              else doc_issues)
     else doc_issues)"

definition documentation_issues :: "(string \<Rightarrow> string) \<Rightarrow> ast \<Rightarrow> pydict list" where
  "documentation_issues cleandoc tree = foldl (doc_visit cleandoc) [] (walk tree)"

definition check_documentation ::
  "(string \<Rightarrow> py_exception + ast) \<Rightarrow> (string \<Rightarrow> string) \<Rightarrow> string \<Rightarrow> pydict" where
  "check_documentation ast_parse cleandoc code =
    (case ast_parse code of
       Inr tree \<Rightarrow>
         (let doc_issues = documentation_issues cleandoc tree
          in [(''status'', VStr ''success''),
              (''issues_found'', VInt (int (length doc_issues))),
              (''documentation_issues'', VList (map VDict doc_issues)),
              (''well_documented'', VBool (length doc_issues = 0))])
     | Inl e \<Rightarrow>
         [(''status'', VStr ''error''),
          (''error_message'', VStr (str_exception e))])"

section \<open>Notions used in the statements\<close>

text \<open>
  The findings one line contributes to the security scan: the table entries whose
  pattern occurs in the lower-cased line, in table order.
\<close>

definition line_findings :: "nat \<Rightarrow> string \<Rightarrow> pydict list" where
  "line_findings i line =
     map (\<lambda>pm. security_finding i line (fst pm) (snd pm))
         (filter (\<lambda>pm. contains (lower line) (fst pm)) dangerous_patterns)"

text \<open>The line \<open>password = "admin123"\<close>.\<close>

definition password_line :: string where
  "password_line = ''password = '' @ [CHR 0x22] @ ''admin123'' @ [CHR 0x22]"

text \<open>
  The condition of the return check in the words of the specification: a return
  statement that carries a value, below the function node.
\<close>

definition has_value_return :: "ast \<Rightarrow> bool" where
  "has_value_return node =
     list_ex (\<lambda>n. is_Return n \<and> return_value n \<noteq> None) (filter (\<lambda>n. n \<noteq> node) (walk node))"

text \<open>
  A result dictionary has an \<open>issues_found\<close> entry, and it is the length of the list
  stored under the given key.
\<close>

definition issues_found_consistent :: "pydict \<Rightarrow> string \<Rightarrow> bool" where
  "issues_found_consistent result findings_key =
     (case lookup result ''issues_found'' of
        Some (VInt n) \<Rightarrow>
          (case lookup result findings_key of
             Some (VList findings) \<Rightarrow> n = int (length findings)
           | _ \<Rightarrow> False)
      | _ \<Rightarrow> False)"

text \<open>
  \<open>def f():\<close> with the docstring \<open>Stops at once, nothing more.\<close> and a bare
  \<open>return\<close>, as \<open>ast.parse\<close> builds it.
\<close>

definition bare_return_function :: ast where
  "bare_return_function =
     FunctionDef ''f'' (Arguments [] [] [])
       [Expr (Constant (CStr ''Stops at once, nothing more.'')), Return None] [] None 1"

text \<open>The same shape, returning a value.\<close>

definition value_return_function :: ast where
  "value_return_function =
     FunctionDef ''g'' (Arguments [] [] [])
       [Expr (Constant (CStr ''Gives back the answer, always.'')), Return (Some (Constant COther))]
       [] None 1"

text \<open>\<open>def f(a): pass\<close>, with no docstring.\<close>

definition undocumented_function :: ast where
  "undocumented_function =
     FunctionDef ''f'' (Arguments [] [Arg ''a'' None] []) [OtherNode []] [] None 1"

text \<open>
  The values of \<open>ast.parse\<close> at the inputs of the examples: the empty input, a
  relative import, and an input it rejects.
\<close>

definition parse_sample :: "string \<Rightarrow> py_exception + ast" where
  "parse_sample code =
     (if code = [] then Inr (Module [])
      else if code = ''from . import x'' then Inr (Module [ImportFrom None [Alias ''x'' None] 1])
      else Inl (SyntaxError ''invalid syntax (<unknown>, line 1)''))"

text \<open>The sources of the three sample functions, and what \<open>ast.parse\<close> returns for them.\<close>

definition triple_quote :: string where
  "triple_quote = [CHR 0x22, CHR 0x22, CHR 0x22]"

definition bare_return_source :: string where
  "bare_return_source =
     ''def f():'' @ [newline] @
     ''    '' @ triple_quote @ ''Stops at once, nothing more.'' @ triple_quote @ [newline] @
     ''    return'' @ [newline]"

definition value_return_source :: string where
  "value_return_source =
     ''def g():'' @ [newline] @
     ''    '' @ triple_quote @ ''Gives back the answer, always.'' @ triple_quote @ [newline] @
     ''    return 42'' @ [newline]"

definition undocumented_source :: string where
  "undocumented_source = ''def f(a):'' @ [newline] @ ''    pass'' @ [newline]"

definition parse_function_sample :: "string \<Rightarrow> py_exception + ast" where
  "parse_function_sample code =
     (if code = bare_return_source then Inr (Module [bare_return_function])
      else if code = value_return_source then Inr (Module [value_return_function])
      else if code = undocumented_source then Inr (Module [undocumented_function])
      else Inl (SyntaxError ''invalid syntax (<unknown>, line 1)''))"

section \<open>Strings and folds\<close>

lemma newline_char: "newline = CHR 0x0A"
  by (simp add: newline_def char_of_def bit_0)

lemma foldl_append_if:
  "foldl (\<lambda>acc x. if P x then acc @ [f x] else acc) acc xs = acc @ map f (filter P xs)"
  by (induction xs arbitrary: acc) simp_all

lemma foldl_append_concat:
  "(\<And>acc x. f acc x = acc @ g x) \<Longrightarrow> foldl f acc xs = acc @ concat (map g xs)"
  by (induction xs arbitrary: acc) simp_all

lemma startswith_iff: "startswith s p \<longleftrightarrow> (\<exists>post. s = p @ post)"
  by (induction s p rule: startswith.induct) auto

lemma contains_iff: "contains s p \<longleftrightarrow> (\<exists>pre post. s = pre @ p @ post)"
proof (induction s)
  case Nil
  then show ?case by (simp add: startswith_iff)
next
  case (Cons c cs)
  show ?case
  proof
    assume "contains (c # cs) p"
    then consider "startswith (c # cs) p" | "contains cs p" by auto
    then show "\<exists>pre post. c # cs = pre @ p @ post"
    proof cases
      case 1
      then obtain post where "c # cs = p @ post" by (auto simp: startswith_iff)
      then have "c # cs = [] @ p @ post" by simp
      then show ?thesis by blast
    next
      case 2
      then obtain pre post where "cs = pre @ p @ post" using Cons.IH by blast
      then have "c # cs = (c # pre) @ p @ post" by simp
      then show ?thesis by blast
    qed
  next
    assume "\<exists>pre post. c # cs = pre @ p @ post"
    then obtain pre post where eq: "c # cs = pre @ p @ post" by blast
    show "contains (c # cs) p"
    proof (cases pre)
      case Nil
      then have "startswith (c # cs) p" using eq by (auto simp: startswith_iff)
      then show ?thesis by simp
    next
      case (Cons a pre')
      then have "cs = pre' @ p @ post" using eq by simp
      then have "contains cs p" using Cons.IH by blast
      then show ?thesis by simp
    qed
  qed
qed

lemma contains_sublist: "contains s p \<longleftrightarrow> sublist p s"
  by (auto simp: contains_iff sublist_def)

lemma contains_set: "contains s p \<Longrightarrow> set p \<subseteq> set s"
  by (auto simp: contains_iff)

lemma lower_char_not_upper:
  "\<not> (65 \<le> (of_char (lower_char c) :: nat) \<and> (of_char (lower_char c) :: nat) \<le> 90)"
proof -
  let ?n = "of_char c :: nat"
  have lt: "?n < 256" by simp
  show ?thesis
  proof (cases "(65 \<le> ?n \<and> ?n \<le> 90) \<or> (192 \<le> ?n \<and> ?n \<le> 222 \<and> ?n \<noteq> 215)")
    case True
    then have "lower_char c = char_of (?n + 32)" unfolding lower_char_def Let_def by (rule if_P)
    moreover have "(?n + 32) mod 256 = ?n + 32" using True by auto
    ultimately have "(of_char (lower_char c) :: nat) = ?n + 32" by simp
    then show ?thesis using True by auto
  next
    case False
    then have "lower_char c = c" unfolding lower_char_def Let_def by (rule if_not_P)
    then show ?thesis using False by auto
  qed
qed

lemma lower_no_upper:
  assumes "65 \<le> (of_char u :: nat)" "(of_char u :: nat) \<le> 90" "u \<in> set p"
  shows "\<not> contains (lower line) p"
proof
  assume "contains (lower line) p"
  then have "u \<in> set (lower line)" using contains_set assms(3) by blast
  then obtain c where "u = lower_char c" by (auto simp: lower_def)
  then show False using lower_char_not_upper [of c] assms(1,2) by simp
qed

lemma secret_never: "\<not> contains (lower line) ''SECRET''"
  by (rule lower_no_upper [of "CHR ''S''"]) simp_all

lemma shell_true_never: "\<not> contains (lower line) ''shell=True''"
  by (rule lower_no_upper [of "CHR ''T''"]) simp_all

lemma security_line_eq:
  "security_line acc il = acc @ line_findings (fst il) (snd il)"
proof -
  obtain i line where il: "il = (i, line)" by (cases il)
  have "(\<lambda>acc pm. case pm of (pattern, message) \<Rightarrow>
                  if contains (lower line) pattern
                  then acc @ [security_finding i line pattern message] else acc)
      = (\<lambda>acc pm. if contains (lower line) (fst pm)
                  then acc @ [security_finding i line (fst pm) (snd pm)] else acc)"
    by (simp add: fun_eq_iff split: prod.splits)
  then show ?thesis
    by (simp add: il security_line_def line_findings_def Let_def foldl_append_if)
qed

lemma security_issues_eq:
  "security_issues code =
     concat (map (\<lambda>il. line_findings (fst il) (snd il)) (enumerate 1 (split_lines code)))"
  unfolding security_issues_def
  by (subst foldl_append_concat [where g = "\<lambda>il. line_findings (fst il) (snd il)"])
     (simp_all add: security_line_eq)

lemma line_findings_unfold:
  "line_findings i line =
    (if contains (lower line) ''eval('' then [security_finding i line ''eval('' ''Dangerous use of eval() - can execute arbitrary code''] else []) @
    (if contains (lower line) ''exec('' then [security_finding i line ''exec('' ''Dangerous use of exec() - can execute arbitrary code''] else []) @
    (if contains (lower line) ''pickle.loads'' then [security_finding i line ''pickle.loads'' ''Unsafe deserialization with pickle - can execute code''] else []) @
    (if contains (lower line) ''__import__'' then [security_finding i line ''__import__'' ''Dynamic imports can be security risk''] else []) @
    (if contains (lower line) ''os.system'' then [security_finding i line ''os.system'' ''Direct system calls - prefer subprocess with shell=False''] else []) @
    (if contains (lower line) ''sql'' then [security_finding i line ''sql'' ''Potential SQL injection - use parameterized queries''] else []) @
    (if contains (lower line) ''password'' then [security_finding i line ''password'' ''Hardcoded password detected - use environment variables''] else []) @
    (if contains (lower line) ''api_key'' then [security_finding i line ''api_key'' ''Hardcoded API key detected - use environment variables''] else [])"
  unfolding line_findings_def dangerous_patterns_def
  by (simp add: secret_never shell_true_never del: contains.simps)

lemma lookup_line_findings:
  "f \<in> set (line_findings j line) \<Longrightarrow> lookup f ''line'' = Some (VInt (int j))"
  by (auto simp: line_findings_def security_finding_def lookup_def)

lemma filter_line_findings:
  "filter (\<lambda>f. lookup f ''line'' = Some (VInt (int k))) (line_findings j line) =
     (if j = k then line_findings j line else [])"
proof (cases "j = k")
  case True
  then show ?thesis by (simp add: lookup_line_findings)
next
  case False
  then have "\<forall>f \<in> set (line_findings j line). lookup f ''line'' \<noteq> Some (VInt (int k))"
    by (auto dest: lookup_line_findings)
  then show ?thesis using False by (simp add: filter_empty_conv)
qed

lemma concat_enumerate_pick:
  "concat (map (\<lambda>il. if fst il = n + i then g (fst il) (snd il) else []) (enumerate n xs)) =
     (if i < length xs then g (n + i) (xs ! i) else [])"
proof (induction xs arbitrary: n i)
  case Nil
  then show ?case by simp
next
  case (Cons x xs)
  show ?case
  proof (cases i)
    case 0
    have "concat (map (\<lambda>il. if fst il = n then g (fst il) (snd il) else []) (enumerate (Suc n) xs)) = []"
      by (auto simp: in_set_enumerate_eq)
    then show ?thesis using 0 by simp
  next
    case (Suc j)
    then show ?thesis using Cons.IH [of "Suc n" j] by simp
  qed
qed

lemma security_issues_at_line:
  assumes "i < length (split_lines code)"
  shows "filter (\<lambda>f. lookup f ''line'' = Some (VInt (int (i + 1)))) (security_issues code) =
           line_findings (i + 1) (split_lines code ! i)"
proof -
  have "filter (\<lambda>f. lookup f ''line'' = Some (VInt (int (i + 1)))) (security_issues code) =
      concat (map (\<lambda>il. if fst il = 1 + i then line_findings (fst il) (snd il) else [])
                (enumerate 1 (split_lines code)))"
    unfolding security_issues_eq filter_concat map_map comp_def filter_line_findings
    by (simp only: add.commute [of i 1])
  also have "\<dots> = line_findings (1 + i) (split_lines code ! i)"
    using assms by (simp only: concat_enumerate_pick if_True)
  finally show ?thesis by (simp only: add.commute [of i 1])
qed

lemma lower_password_line: "lower password_line = password_line"
  by (simp add: password_line_def lower_def lower_char_def)

lemma strip_password_line: "strip password_line = password_line"
  by (simp add: password_line_def strip_def isspace_def)

lemma line_findings_password:
  "line_findings j password_line =
     [security_finding j password_line ''password''
        ''Hardcoded password detected - use environment variables'']"
  unfolding line_findings_unfold lower_password_line
  by (simp add: password_line_def)

lemma set_enumerate_1:
  "set (enumerate 1 xs) = (\<lambda>i. (i + 1, xs ! i)) ` {..<length xs}"
proof (rule set_eqI)
  fix p :: "nat \<times> 'a"
  obtain a b where p: "p = (a, b)" by (cases p)
  show "p \<in> set (enumerate 1 xs) \<longleftrightarrow> p \<in> (\<lambda>i. (i + 1, xs ! i)) ` {..<length xs}"
  proof
    assume "p \<in> set (enumerate 1 xs)"
    then have "1 \<le> a" "a < length xs + 1" "b = xs ! (a - 1)"
      by (simp_all add: p in_set_enumerate_eq)
    then have "a - 1 < length xs" "p = ((a - 1) + 1, xs ! (a - 1))"
      by (simp_all add: p)
    then show "p \<in> (\<lambda>i. (i + 1, xs ! i)) ` {..<length xs}"
      by blast
  next
    assume "p \<in> (\<lambda>i. (i + 1, xs ! i)) ` {..<length xs}"
    then obtain i where "i < length xs" "p = (i + 1, xs ! i)" by auto
    then show "p \<in> set (enumerate 1 xs)"
      by (simp add: in_set_enumerate_eq)
  qed
qed

lemma security_issues_set:
  "set (security_issues code) =
     (\<Union>i < length (split_lines code). set (line_findings (i + 1) (split_lines code ! i)))"
  unfolding security_issues_eq set_concat set_map set_enumerate_1 by auto

lemma line_findings_severity:
  assumes "f \<in> set (line_findings j line)"
  shows "\<exists>p m. (p, m) \<in> set dangerous_patterns \<and> lookup f ''pattern'' = Some (VStr p) \<and>
           lookup f ''severity'' =
             Some (VStr (if p \<in> {''eval('', ''exec('', ''pickle.loads''} then ''HIGH'' else ''MEDIUM''))"
proof -
  from assms obtain p m where pm: "(p, m) \<in> set dangerous_patterns"
    and f: "f = security_finding j line p m"
    by (auto simp: line_findings_def)
  have "lookup f ''pattern'' = Some (VStr p)"
    by (simp add: f security_finding_def lookup_def)
  moreover have "lookup f ''severity'' =
      Some (VStr (if p \<in> {''eval('', ''exec('', ''pickle.loads''} then ''HIGH'' else ''MEDIUM''))"
    by (simp add: f security_finding_def lookup_def)
  ultimately show ?thesis using pm by blast
qed

lemma lower_append: "lower (a @ b) = lower a @ lower b"
  by (simp add: lower_def)

lemma secret_line: "split_lines ''secret = 42'' = [''secret = 42'']"
  by (simp add: newline_def char_of_def)

lemma secret_lower: "lower ''secret = 42'' = ''secret = 42''"
  by (simp add: lower_def lower_char_def)

lemma split_lines_password_line: "split_lines password_line = [password_line]"
  by (simp add: password_line_def newline_char)

lemma security_issues_password_line:
  assumes "i < length (split_lines code)" and "split_lines code ! i = password_line"
  shows "filter (\<lambda>f. lookup f ''line'' = Some (VInt (int (i + 1)))) (security_issues code) =
           [[(''line'', VInt (int (i + 1))),
             (''pattern'', VStr ''password''),
             (''message'', VStr ''Hardcoded password detected - use environment variables''),
             (''severity'', VStr ''MEDIUM''),
             (''code_snippet'', VStr password_line)]]"
  unfolding security_issues_at_line [OF assms(1)] assms(2) line_findings_password
  by (simp add: security_finding_def strip_password_line)

lemma security_issues_severity:
  "(\<forall>f \<in> set (security_issues code).
      \<exists>p m. (p, m) \<in> set dangerous_patterns \<and> lookup f ''pattern'' = Some (VStr p) \<and>
        lookup f ''severity'' =
          Some (VStr (if p \<in> {''eval('', ''exec('', ''pickle.loads''} then ''HIGH'' else ''MEDIUM'')))
   \<and> (\<forall>i pre w post. i < length (split_lines code) \<and> split_lines code ! i = pre @ w @ post \<and>
          lower w = ''eval('' \<longrightarrow>
        (\<exists>f \<in> set (security_issues code).
           lookup f ''line'' = Some (VInt (int (i + 1))) \<and>
           lookup f ''pattern'' = Some (VStr ''eval('') \<and>
           lookup f ''severity'' = Some (VStr ''HIGH'')))"
proof (intro conjI ballI allI impI)
  fix f assume "f \<in> set (security_issues code)"
  then obtain i where "f \<in> set (line_findings (i + 1) (split_lines code ! i))"
    by (auto simp: security_issues_set)
  then show "\<exists>p m. (p, m) \<in> set dangerous_patterns \<and> lookup f ''pattern'' = Some (VStr p) \<and>
        lookup f ''severity'' =
          Some (VStr (if p \<in> {''eval('', ''exec('', ''pickle.loads''} then ''HIGH'' else ''MEDIUM''))"
    by (rule line_findings_severity)
next
  fix i pre w post
  assume a: "i < length (split_lines code) \<and> split_lines code ! i = pre @ w @ post \<and>
          lower w = ''eval(''"
  let ?line = "split_lines code ! i"
  let ?f = "security_finding (i + 1) ?line ''eval('' ''Dangerous use of eval() - can execute arbitrary code''"
  have "lower ?line = lower pre @ ''eval('' @ lower post"
    using a by (simp add: lower_append)
  then have "contains (lower ?line) ''eval(''"
    unfolding contains_iff by blast
  then have "?f \<in> set (line_findings (i + 1) ?line)"
    unfolding line_findings_unfold by simp
  moreover have "i < length (split_lines code)" using a by simp
  ultimately have "?f \<in> set (security_issues code)"
    unfolding security_issues_set by blast
  moreover have "lookup ?f ''line'' = Some (VInt (int (i + 1)))"
    "lookup ?f ''pattern'' = Some (VStr ''eval('')"
    "lookup ?f ''severity'' = Some (VStr ''HIGH'')"
    by (simp_all add: security_finding_def lookup_def)
  ultimately show "\<exists>f \<in> set (security_issues code).
           lookup f ''line'' = Some (VInt (int (i + 1))) \<and>
           lookup f ''pattern'' = Some (VStr ''eval('') \<and>
           lookup f ''severity'' = Some (VStr ''HIGH'')"
    by blast
qed

lemma security_result_findings:
  "lookup (check_security_issues code) ''security_issues'' =
     Some (VList (map VDict (security_issues code)))"
  by (simp add: check_security_issues_def lookup_def Let_def)

section \<open>Performance scanner: the loop flag\<close>

lemma strip_prefix_dropWhile: "\<exists>rest. dropWhile isspace s = strip s @ rest"
proof -
  have "rev (dropWhile isspace s) =
      takeWhile isspace (rev (dropWhile isspace s)) @ dropWhile isspace (rev (dropWhile isspace s))"
    by simp
  then have "dropWhile isspace s =
      rev (dropWhile isspace (rev (dropWhile isspace s))) @
      rev (takeWhile isspace (rev (dropWhile isspace s)))"
    by (metis rev_append rev_rev_ident)
  then show ?thesis unfolding strip_def by blast
qed

lemma strip_hd_not_space:
  assumes "strip s \<noteq> []"
  shows "\<not> isspace (hd (strip s))"
proof -
  obtain rest where r: "dropWhile isspace s = strip s @ rest"
    using strip_prefix_dropWhile by blast
  then have "dropWhile isspace s \<noteq> []" using assms by simp
  then have "\<not> isspace (hd (dropWhile isspace s))" by (rule hd_dropWhile)
  then show ?thesis using r assms by simp
qed

lemma strip_not_startswith_space: "\<not> startswith (strip s) '' ''"
proof
  assume a: "startswith (strip s) '' ''"
  then obtain c cs where s: "strip s = c # cs" by (cases "strip s") auto
  then have "c = CHR '' ''" using a by simp
  moreover have "\<not> isspace c" using strip_hd_not_space [of s] s by simp
  ultimately show False by (simp add: isspace_def)
qed

lemma track_loop_strip:
  "track_loop in_loop (strip line) \<longleftrightarrow>
     startswith (strip line) ''for '' \<or> startswith (strip line) ''while '' \<or>
     (strip line = [] \<and> in_loop)"
  by (auto simp: track_loop_def strip_not_startswith_space simp del: startswith.simps)

lemma loop_input_lines: "split_lines (''for x in xs:'' @ [newline] @ ''    ys.append(x)'') = [''for x in xs:'', ''    ys.append(x)'']"
  by (simp add: newline_char)

lemma strip_loop_header: "strip ''for x in xs:'' = ''for x in xs:''"
  by (simp add: strip_def isspace_def)

lemma strip_loop_body: "strip ''    ys.append(x)'' = ''ys.append(x)''"
  by (simp add: strip_def isspace_def)

lemma performance_line_header: "performance_line (False, []) (i, ''for x in xs:'') = (True, [])"
  unfolding performance_line_def prod.case Let_def strip_loop_header
  by (simp add: track_loop_def performance_patterns_def patterns_def)

lemma performance_line_body: "performance_line (True, []) (i, ''    ys.append(x)'') = (False, [])"
  unfolding performance_line_def prod.case Let_def strip_loop_body
  by (simp add: track_loop_def performance_patterns_def patterns_def)

section \<open>Tree analyzers: the walk and the visits\<close>

lemma doc_visit_append:
  "doc_visit cleandoc doc_issues node = doc_issues @ doc_visit cleandoc [] node"
  by (simp add: doc_visit_def Let_def split: option.splits)

lemma doc_visit_adequate:
  assumes "is_FunctionDef node" "get_docstring cleandoc node = Some doc" "20 \<le> length doc"
  shows "doc_visit cleandoc doc_issues node =
    doc_issues @
    (if 0 < length (arg_list (args node)) \<and> \<not> (contains doc ''Args:'' \<or> contains doc ''Parameters:'')
     then [doc_finding node ''Function''
             (''Docstring doesn'' @ [CHR 0x27] @ ''t document parameters'') ''MEDIUM'']
     else []) @
    (if has_return node \<and> \<not> (contains doc ''Returns:'' \<or> contains doc ''Return:'')
     then [doc_finding node ''Function''
             (''Docstring doesn'' @ [CHR 0x27] @ ''t document return value'') ''LOW'']
     else [])"
proof -
  have "doc \<noteq> []" using assms(3) by auto
  then show ?thesis
    using assms by (simp add: doc_visit_def Let_def del: contains.simps)
qed

lemma has_return_iff: "has_return node \<longleftrightarrow> (\<exists>n \<in> set (walk node). n \<noteq> node \<and> is_Return n)"
  by (auto simp: has_return_def list_ex_iff)

lemma walk_bare: "walk bare_return_function =
  [bare_return_function, Arguments [] [] [], Expr (Constant (CStr ''Stops at once, nothing more.'')), Return None,
   Constant (CStr ''Stops at once, nothing more.'')]"
  by (simp add: walk_def bare_return_function_def)

lemma walk_value: "walk value_return_function =
  [value_return_function, Arguments [] [] [],
   Expr (Constant (CStr ''Gives back the answer, always.'')), Return (Some (Constant COther)),
   Constant (CStr ''Gives back the answer, always.''), Constant COther]"
  by (simp add: walk_def value_return_function_def)

lemma structure_empty: "analyze_code_structure parse_sample id [] =
   [(''status'', VStr ''success''), (''functions'', VList []), (''classes'', VList []),
    (''imports'', VList []), (''lines_of_code'', VInt 1), (''issues'', VList [])]"
  by (simp add: analyze_code_structure_def parse_sample_def structure_walk_def walk_def
      structure_visit_def analysis_dict_def)

lemma foldl_filter_skip:
  "(\<And>a x. \<not> P x \<Longrightarrow> f a x = a) \<Longrightarrow> foldl f a (filter P xs) = foldl f a xs"
  by (induction xs arbitrary: a) simp_all

lemma structure_visit_async:
  "is_AsyncFunctionDef node \<Longrightarrow> structure_visit cleandoc analysis node = analysis"
  by (cases node) (simp_all add: structure_visit_def)

lemma doc_visit_async:
  "is_AsyncFunctionDef node \<Longrightarrow> doc_visit cleandoc doc_issues node = doc_issues"
  by (cases node) (simp_all add: doc_visit_def)

lemma imports_foldl_alias:
  "an_imports (foldl (\<lambda>analysis alias.
        analysis\<lparr>an_imports := an_imports analysis @ [VStr (name alias)]\<rparr>) analysis ns) =
     an_imports analysis @ map (\<lambda>alias. VStr (name alias)) ns"
  by (induction ns arbitrary: analysis) simp_all

lemma imports_visit_mono:
  "v \<in> set (an_imports analysis) \<Longrightarrow> v \<in> set (an_imports (structure_visit cleandoc analysis node))"
  by (simp add: structure_visit_def Let_def imports_foldl_alias)

lemma imports_walk_mono:
  "v \<in> set (an_imports analysis) \<Longrightarrow>
     v \<in> set (an_imports (foldl (structure_visit cleandoc) analysis nodes))"
  by (induction nodes arbitrary: analysis) (simp_all add: imports_visit_mono)

lemma imports_visit_from:
  "an_imports (structure_visit cleandoc analysis (ImportFrom m ns lv)) =
     an_imports analysis @ [module_value m]"
  by (simp add: structure_visit_def)

lemma imports_walk_from:
  assumes "ImportFrom None ns lv \<in> set nodes"
  shows "VNone \<in> set (an_imports (foldl (structure_visit cleandoc) analysis nodes))"
proof -
  from assms obtain ys zs where "nodes = ys @ ImportFrom None ns lv # zs"
    by (auto dest: split_list)
  then show ?thesis
    by (simp add: imports_walk_mono imports_visit_from module_value_def)
qed

lemma doc_visit_missing_docstring:
  assumes "is_FunctionDef node \<or> is_ClassDef node" and "get_docstring cleandoc node = None"
  shows "doc_visit cleandoc doc_issues node =
           doc_issues @
           [[(''line'', VInt (int (lineno node))),
             (''element'', VStr (name node)),
             (''type'', VStr (if is_FunctionDef node then ''Function'' else ''Class'')),
             (''issue'', VStr ''Missing docstring''),
             (''severity'', VStr ''HIGH'')]]"
  using assms by (simp add: doc_visit_def doc_finding_def Let_def)

lemma doc_result_findings:
  "ast_parse code = Inr tree \<Longrightarrow>
   lookup (check_documentation ast_parse cleandoc code) ''documentation_issues'' =
     Some (VList (map VDict (documentation_issues cleandoc tree)))"
  by (simp add: check_documentation_def lookup_def Let_def)

lemma doc_fold_append:
  "foldl (doc_visit cleandoc) acc nodes = acc @ foldl (doc_visit cleandoc) [] nodes"
proof -
  have "foldl (doc_visit cleandoc) a nodes = a @ concat (map (doc_visit cleandoc []) nodes)" for a
    by (rule foldl_append_concat) (rule doc_visit_append)
  from this [of acc] this [of "[]"] show ?thesis by simp
qed

lemma documentation_issues_split:
  assumes "walk tree = before @ node # after"
  shows "documentation_issues cleandoc tree =
           foldl (doc_visit cleandoc) [] before @ doc_visit cleandoc [] node @
           foldl (doc_visit cleandoc) [] after"
proof -
  have "documentation_issues cleandoc tree =
      foldl (doc_visit cleandoc) (doc_visit cleandoc (foldl (doc_visit cleandoc) [] before) node) after"
    by (simp add: documentation_issues_def assms)
  also have "\<dots> = doc_visit cleandoc (foldl (doc_visit cleandoc) [] before) node @
      foldl (doc_visit cleandoc) [] after"
    by (rule doc_fold_append)
  also have "doc_visit cleandoc (foldl (doc_visit cleandoc) [] before) node =
      foldl (doc_visit cleandoc) [] before @ doc_visit cleandoc [] node"
    by (rule doc_visit_append)
  finally show ?thesis by simp
qed

lemma doc_visit_other:
  "\<not> is_FunctionDef node \<Longrightarrow> \<not> is_ClassDef node \<Longrightarrow> doc_visit cleandoc doc_issues node = doc_issues"
  by (simp add: doc_visit_def)

lemma parse_undocumented:
  "parse_function_sample undocumented_source = Inr (Module [undocumented_function])"
  by (simp add: parse_function_sample_def undocumented_source_def bare_return_source_def
      value_return_source_def)

lemma parse_value_return:
  "parse_function_sample value_return_source = Inr (Module [value_return_function])"
  by (simp add: parse_function_sample_def bare_return_source_def value_return_source_def)

lemma parse_bare_return:
  "parse_function_sample bare_return_source = Inr (Module [bare_return_function])"
  by (simp add: parse_function_sample_def)

lemma walk_module_undocumented:
  "walk (Module [undocumented_function]) =
     [Module [undocumented_function]] @ undocumented_function #
     [Arguments [] [Arg ''a'' None] [], OtherNode [], Arg ''a'' None]"
  by (simp add: walk_def undocumented_function_def)

lemma walk_module_value:
  "walk (Module [value_return_function]) =
     [Module [value_return_function]] @ value_return_function #
     [Arguments [] [] [], Expr (Constant (CStr ''Gives back the answer, always.'')),
      Return (Some (Constant COther)), Constant (CStr ''Gives back the answer, always.''),
      Constant COther]"
  by (simp add: walk_def value_return_function_def)

lemma walk_module_bare:
  "walk (Module [bare_return_function]) =
     [Module [bare_return_function]] @ bare_return_function #
     [Arguments [] [] [], Expr (Constant (CStr ''Stops at once, nothing more.'')),
      Return None, Constant (CStr ''Stops at once, nothing more.'')]"
  by (simp add: walk_def bare_return_function_def)

section \<open>Security scanner: the claims\<close>

text \<open>
  C2. The claim: every table entry, the secret heuristic included, is matched without
  regard to letter case, so a line containing "secret" yields a Finding for the secret
  pattern. The table spells that pattern \<open>SECRET\<close> and the scan looks for it in the
  lower-cased line, where no capital letter is left (\<open>secret_never\<close>): on the input
  \<open>secret = 42\<close> the scan reports nothing.
\<close>

theorem security_secret_line_no_finding:
  "check_security_issues ''secret = 42'' =
     [(''status'', VStr ''success''),
      (''issues_found'', VInt 0),
      (''security_issues'', VList []),
      (''safe'', VBool True)]"
proof -
  have "line_findings 1 ''secret = 42'' = []"
    unfolding line_findings_unfold secret_lower by simp
  then have "security_issues ''secret = 42'' = []"
    unfolding security_issues_eq secret_line by simp
  then show ?thesis
    by (simp add: check_security_issues_def)
qed

text \<open>
  C5. In every input, a line \<open>password = "admin123"\<close> contributes exactly one Finding to
  the result of \<open>check_security_issues\<close>: the entries of its \<open>security_issues\<close> list that
  carry the number of that line are the single entry for the pattern \<open>password\<close>, with
  severity MEDIUM.
\<close>

theorem security_password_line_single_finding:
  assumes "i < length (split_lines code)" and "split_lines code ! i = password_line"
  shows "\<exists>findings.
           lookup (check_security_issues code) ''security_issues'' = Some (VList (map VDict findings)) \<and>
           filter (\<lambda>f. lookup f ''line'' = Some (VInt (int (i + 1)))) findings =
             [[(''line'', VInt (int (i + 1))),
               (''pattern'', VStr ''password''),
               (''message'', VStr ''Hardcoded password detected - use environment variables''),
               (''severity'', VStr ''MEDIUM''),
               (''code_snippet'', VStr password_line)]]"
  using security_result_findings [of code] security_issues_password_line [OF assms]
  by blast

theorem security_password_line_single_finding_witness:
  "0 < length (split_lines password_line) \<and> split_lines password_line ! 0 = password_line \<and>
   (\<exists>findings.
      lookup (check_security_issues password_line) ''security_issues'' =
        Some (VList (map VDict findings)) \<and>
      filter (\<lambda>f. lookup f ''line'' = Some (VInt (int (0 + 1)))) findings =
        [[(''line'', VInt (int (0 + 1))),
          (''pattern'', VStr ''password''),
          (''message'', VStr ''Hardcoded password detected - use environment variables''),
          (''severity'', VStr ''MEDIUM''),
          (''code_snippet'', VStr password_line)]])"
proof -
  have h1: "0 < length (split_lines password_line)" by (simp add: split_lines_password_line)
  have h2: "split_lines password_line ! 0 = password_line" by (simp add: split_lines_password_line)
  show ?thesis
    by (intro conjI h1 h2 security_password_line_single_finding [OF h1 h2])
qed

text \<open>
  C6. Every Finding in the \<open>security_issues\<close> list of the result of
  \<open>check_security_issues\<close> is for a pattern of the table, and its severity is HIGH when the
  pattern is \<open>eval(\<close>, \<open>exec(\<close> or \<open>pickle.loads\<close> and MEDIUM otherwise; for a line with a
  part that lower-cases to \<open>eval(\<close>, the list holds a Finding for \<open>eval(\<close> at that line with
  severity HIGH.
\<close>

theorem security_severity_rule:
  "\<exists>findings.
     lookup (check_security_issues code) ''security_issues'' = Some (VList (map VDict findings)) \<and>
     (\<forall>f \<in> set findings.
        \<exists>p m. (p, m) \<in> set dangerous_patterns \<and> lookup f ''pattern'' = Some (VStr p) \<and>
          lookup f ''severity'' =
            Some (VStr (if p \<in> {''eval('', ''exec('', ''pickle.loads''} then ''HIGH'' else ''MEDIUM''))) \<and>
     (\<forall>i pre w post. i < length (split_lines code) \<and> split_lines code ! i = pre @ w @ post \<and>
          lower w = ''eval('' \<longrightarrow>
        (\<exists>f \<in> set findings.
           lookup f ''line'' = Some (VInt (int (i + 1))) \<and>
           lookup f ''pattern'' = Some (VStr ''eval('') \<and>
           lookup f ''severity'' = Some (VStr ''HIGH'')))"
  by (rule exI [of _ "security_issues code"])
     (rule conjI [OF security_result_findings security_issues_severity])

theorem security_severity_rule_witness:
  "(0 < length (split_lines ''x = EVAL(y)'') \<and>
    split_lines ''x = EVAL(y)'' ! 0 = ''x = '' @ ''EVAL('' @ ''y)'' \<and>
    lower ''EVAL('' = ''eval('') \<and>
   (\<exists>findings.
      lookup (check_security_issues ''x = EVAL(y)'') ''security_issues'' =
        Some (VList (map VDict findings)) \<and>
      (\<exists>f \<in> set findings.
         lookup f ''line'' = Some (VInt (int (0 + 1))) \<and>
         lookup f ''pattern'' = Some (VStr ''eval('') \<and>
         lookup f ''severity'' = Some (VStr ''HIGH'')))"
proof -
  have h: "0 < length (split_lines ''x = EVAL(y)'') \<and>
    split_lines ''x = EVAL(y)'' ! 0 = ''x = '' @ ''EVAL('' @ ''y)'' \<and>
    lower ''EVAL('' = ''eval(''"
    by (simp add: newline_char lower_def lower_char_def char_of_def bit_0)
  from security_severity_rule [of "''x = EVAL(y)''"] obtain findings where
    r: "lookup (check_security_issues ''x = EVAL(y)'') ''security_issues'' =
          Some (VList (map VDict findings))"
    and e: "\<forall>i pre w post. i < length (split_lines ''x = EVAL(y)'') \<and>
          split_lines ''x = EVAL(y)'' ! i = pre @ w @ post \<and> lower w = ''eval('' \<longrightarrow>
        (\<exists>f \<in> set findings.
           lookup f ''line'' = Some (VInt (int (i + 1))) \<and>
           lookup f ''pattern'' = Some (VStr ''eval('') \<and>
           lookup f ''severity'' = Some (VStr ''HIGH''))"
    by blast
  from e h have "\<exists>f \<in> set findings.
           lookup f ''line'' = Some (VInt (int (0 + 1))) \<and>
           lookup f ''pattern'' = Some (VStr ''eval('') \<and>
           lookup f ''severity'' = Some (VStr ''HIGH'')"
    by blast
  with r h show ?thesis by blast
qed

section \<open>Performance scanner: the claims\<close>

text \<open>
  C1. The claim: an \<open>.append(\<close> line that immediately follows a \<open>for\<close> header, at the
  same or deeper indentation, yields a LOW Finding, and the loop flag is cleared only
  by a non-blank line with no indentation. The code tests the indentation on the line
  after \<open>strip()\<close>, which never starts with a space, so every non-blank line that is
  not itself a loop header clears the flag (\<open>track_loop_strip\<close>), the indented
  \<open>.append(\<close> line included: on a \<open>for\<close> header followed by an indented \<open>.append(\<close> line
  the scan reports nothing.
\<close>

theorem performance_append_after_for_no_finding:
  "check_performance_issues (''for x in xs:'' @ [newline] @ ''    ys.append(x)'') =
     [(''status'', VStr ''success''),
      (''issues_found'', VInt 0),
      (''performance_issues'', VList []),
      (''optimized'', VBool True)]"
proof -
  have "performance_scan (''for x in xs:'' @ [newline] @ ''    ys.append(x)'') = (False, [])"
    unfolding performance_scan_def loop_input_lines
    by (simp add: performance_line_header performance_line_body)
  then show ?thesis
    by (simp add: check_performance_issues_def performance_issues_def)
qed

section \<open>Tree analyzers: the claims\<close>

text \<open>
  C3, as amended. In the \<open>documentation_issues\<close> list of the result of
  \<open>check_documentation\<close>, a function node whose docstring has at least 20 characters
  contributes, between the findings of the nodes walked before it and of those walked
  after it, the parameter Finding when its condition holds, and then the LOW Finding
  "doesn't document return value" exactly when some node below the function is a return
  statement, with or without a value, and the docstring contains neither \<open>Returns:\<close> nor
  \<open>Return:\<close>.
\<close>

theorem doc_return_finding_iff:
  assumes "ast_parse code = Inr tree" and "walk tree = before @ node # after"
    and "is_FunctionDef node" and "get_docstring cleandoc node = Some doc" and "20 \<le> length doc"
  shows "lookup (check_documentation ast_parse cleandoc code) ''documentation_issues'' =
           Some (VList (map VDict
             (foldl (doc_visit cleandoc) [] before @
              (if 0 < length (arg_list (args node)) \<and>
                  \<not> contains doc ''Args:'' \<and> \<not> contains doc ''Parameters:''
               then [doc_finding node ''Function''
                       (''Docstring doesn'' @ [CHR 0x27] @ ''t document parameters'') ''MEDIUM'']
               else []) @
              (if (\<exists>n \<in> set (walk node). n \<noteq> node \<and> is_Return n) \<and>
                  \<not> contains doc ''Returns:'' \<and> \<not> contains doc ''Return:''
               then [doc_finding node ''Function''
                       (''Docstring doesn'' @ [CHR 0x27] @ ''t document return value'') ''LOW'']
               else []) @
              foldl (doc_visit cleandoc) [] after)))"
  unfolding doc_result_findings [where ast_parse = ast_parse and code = code, OF assms(1)]
    documentation_issues_split [OF assms(2)]
    doc_visit_adequate [OF assms(3,4,5)] has_return_iff
  by (simp del: contains.simps)

theorem doc_return_finding_iff_witness:
  "parse_function_sample value_return_source = Inr (Module [value_return_function]) \<and>
   walk (Module [value_return_function]) =
     [Module [value_return_function]] @ value_return_function #
     [Arguments [] [] [], Expr (Constant (CStr ''Gives back the answer, always.'')),
      Return (Some (Constant COther)), Constant (CStr ''Gives back the answer, always.''),
      Constant COther] \<and>
   is_FunctionDef value_return_function \<and>
   get_docstring id value_return_function = Some ''Gives back the answer, always.'' \<and>
   20 \<le> length ''Gives back the answer, always.'' \<and>
   lookup (check_documentation parse_function_sample id value_return_source)
       ''documentation_issues'' =
     Some (VList [VDict (doc_finding value_return_function ''Function''
       (''Docstring doesn'' @ [CHR 0x27] @ ''t document return value'') ''LOW'')])"
proof -
  have f: "is_FunctionDef value_return_function"
    by (simp add: value_return_function_def)
  have d: "get_docstring id value_return_function = Some ''Gives back the answer, always.''"
    by (simp add: get_docstring_def value_return_function_def)
  have l: "20 \<le> length ''Gives back the answer, always.''" by simp
  have r: "\<exists>n \<in> set (walk value_return_function). n \<noteq> value_return_function \<and> is_Return n"
    unfolding walk_value by (simp add: value_return_function_def)
  have m: "\<not> contains ''Gives back the answer, always.'' ''Returns:''"
    "\<not> contains ''Gives back the answer, always.'' ''Return:''"
    by simp_all
  have g: "arg_list (args value_return_function) = []"
    by (simp add: value_return_function_def)
  have b: "foldl (doc_visit id) [] [Module [value_return_function]] = []"
    by (simp add: doc_visit_other)
  have a: "foldl (doc_visit id) []
      [Arguments [] [] [], Expr (Constant (CStr ''Gives back the answer, always.'')),
       Return (Some (Constant COther)), Constant (CStr ''Gives back the answer, always.''),
       Constant COther] = []"
    by (simp add: doc_visit_other)
  have "lookup (check_documentation parse_function_sample id value_return_source)
       ''documentation_issues'' =
     Some (VList [VDict (doc_finding value_return_function ''Function''
       (''Docstring doesn'' @ [CHR 0x27] @ ''t document return value'') ''LOW'')])"
    unfolding doc_return_finding_iff [where ast_parse = parse_function_sample and code = value_return_source
        and cleandoc = id, OF parse_value_return walk_module_value f d l] a b g
    using r m by simp
  then show ?thesis
    using parse_value_return walk_module_value f d l by blast
qed

text \<open>
  C3 as stated fails: a function whose only return statement is a bare \<open>return\<close> has no
  return-with-value statement below it, and \<open>check_documentation\<close> still reports the
  Finding.
\<close>

theorem doc_bare_return_still_flagged:
  "parse_function_sample bare_return_source = Inr (Module [bare_return_function]) \<and>
   is_FunctionDef bare_return_function \<and>
   get_docstring id bare_return_function = Some ''Stops at once, nothing more.'' \<and>
   20 \<le> length ''Stops at once, nothing more.'' \<and>
   \<not> has_value_return bare_return_function \<and>
   check_documentation parse_function_sample id bare_return_source =
     [(''status'', VStr ''success''),
      (''issues_found'', VInt 1),
      (''documentation_issues'',
         VList [VDict
           [(''line'', VInt 1),
            (''element'', VStr ''f''),
            (''type'', VStr ''Function''),
            (''issue'', VStr (''Docstring doesn'' @ [CHR 0x27] @ ''t document return value'')),
            (''severity'', VStr ''LOW'')]]),
      (''well_documented'', VBool False)]"
proof -
  have d: "get_docstring id bare_return_function = Some ''Stops at once, nothing more.''"
    by (simp add: get_docstring_def bare_return_function_def)
  have f: "is_FunctionDef bare_return_function"
    by (simp add: bare_return_function_def)
  have l: "20 \<le> length ''Stops at once, nothing more.''" by simp
  have r: "has_return bare_return_function"
    unfolding has_return_def walk_bare by (simp add: bare_return_function_def)
  have v: "\<not> has_value_return bare_return_function"
    unfolding has_value_return_def walk_bare by (simp add: bare_return_function_def)
  have g: "arg_list (args bare_return_function) = []"
    by (simp add: bare_return_function_def)
  have b: "foldl (doc_visit id) [] [Module [bare_return_function]] = []"
    by (simp add: doc_visit_other)
  have a: "foldl (doc_visit id) []
      [Arguments [] [] [], Expr (Constant (CStr ''Stops at once, nothing more.'')),
       Return None, Constant (CStr ''Stops at once, nothing more.'')] = []"
    by (simp add: doc_visit_other)
  have n: "doc_visit id [] bare_return_function =
     [doc_finding bare_return_function ''Function''
        (''Docstring doesn'' @ [CHR 0x27] @ ''t document return value'') ''LOW'']"
    unfolding doc_visit_adequate [OF f d l] by (simp add: r g)
  have i: "documentation_issues id (Module [bare_return_function]) =
     [doc_finding bare_return_function ''Function''
        (''Docstring doesn'' @ [CHR 0x27] @ ''t document return value'') ''LOW'']"
    unfolding documentation_issues_split [OF walk_module_bare] a b n by simp
  have u: "lineno bare_return_function = 1" "name bare_return_function = ''f''"
    by (simp_all add: bare_return_function_def)
  have "check_documentation parse_function_sample id bare_return_source =
     [(''status'', VStr ''success''),
      (''issues_found'', VInt 1),
      (''documentation_issues'',
         VList [VDict
           [(''line'', VInt 1),
            (''element'', VStr ''f''),
            (''type'', VStr ''Function''),
            (''issue'', VStr (''Docstring doesn'' @ [CHR 0x27] @ ''t document return value'')),
            (''severity'', VStr ''LOW'')]]),
      (''well_documented'', VBool False)]"
    unfolding check_documentation_def parse_bare_return sum.case Let_def i
    by (simp add: doc_finding_def u)
  then show ?thesis
    using parse_bare_return d f l v by blast
qed

text \<open>
  C7. In the \<open>documentation_issues\<close> list of the result of \<open>check_documentation\<close>, a
  function or class node without a docstring contributes exactly one Finding, with issue
  "Missing docstring" and severity HIGH, between the findings of the nodes walked before
  it and of those walked after it; no other Finding is emitted for it.
\<close>

theorem doc_missing_docstring_single_finding:
  assumes "ast_parse code = Inr tree" and "walk tree = before @ node # after"
    and "is_FunctionDef node \<or> is_ClassDef node" and "get_docstring cleandoc node = None"
  shows "lookup (check_documentation ast_parse cleandoc code) ''documentation_issues'' =
           Some (VList (map VDict
             (foldl (doc_visit cleandoc) [] before @
              [[(''line'', VInt (int (lineno node))),
                (''element'', VStr (name node)),
                (''type'', VStr (if is_FunctionDef node then ''Function'' else ''Class'')),
                (''issue'', VStr ''Missing docstring''),
                (''severity'', VStr ''HIGH'')]] @
              foldl (doc_visit cleandoc) [] after)))"
  unfolding doc_result_findings [where ast_parse = ast_parse and code = code, OF assms(1)]
    documentation_issues_split [OF assms(2)]
    doc_visit_missing_docstring [OF assms(3,4)]
  by simp

theorem doc_missing_docstring_single_finding_witness:
  "parse_function_sample undocumented_source = Inr (Module [undocumented_function]) \<and>
   walk (Module [undocumented_function]) =
     [Module [undocumented_function]] @ undocumented_function #
     [Arguments [] [Arg ''a'' None] [], OtherNode [], Arg ''a'' None] \<and>
   (is_FunctionDef undocumented_function \<or> is_ClassDef undocumented_function) \<and>
   get_docstring id undocumented_function = None \<and>
   lookup (check_documentation parse_function_sample id undocumented_source)
       ''documentation_issues'' =
     Some (VList [VDict
       [(''line'', VInt 1),
        (''element'', VStr ''f''),
        (''type'', VStr ''Function''),
        (''issue'', VStr ''Missing docstring''),
        (''severity'', VStr ''HIGH'')]])"
proof -
  have f: "is_FunctionDef undocumented_function \<or> is_ClassDef undocumented_function"
    by (simp add: undocumented_function_def)
  have d: "get_docstring id undocumented_function = None"
    by (simp add: get_docstring_def undocumented_function_def)
  have b: "foldl (doc_visit id) [] [Module [undocumented_function]] = []"
    by (simp add: doc_visit_other)
  have a: "foldl (doc_visit id) [] [Arguments [] [Arg ''a'' None] [], OtherNode [], Arg ''a'' None] = []"
    by (simp add: doc_visit_other)
  have u: "lineno undocumented_function = 1" "name undocumented_function = ''f''"
    "is_FunctionDef undocumented_function"
    by (simp_all add: undocumented_function_def)
  have "lookup (check_documentation parse_function_sample id undocumented_source)
       ''documentation_issues'' =
     Some (VList [VDict
       [(''line'', VInt 1),
        (''element'', VStr ''f''),
        (''type'', VStr ''Function''),
        (''issue'', VStr ''Missing docstring''),
        (''severity'', VStr ''HIGH'')]])"
    unfolding doc_missing_docstring_single_finding [where ast_parse = parse_function_sample and code = undocumented_source
        and cleandoc = id, OF parse_undocumented walk_module_undocumented f d] a b
    by (simp add: u)
  then show ?thesis
    using parse_undocumented walk_module_undocumented f d by blast
qed

text \<open>
  C4, as amended. The results of the Security Scanner and of the Performance Scanner,
  and every success result of the Documentation Auditor, carry an \<open>issues_found\<close> entry
  equal to the length of their findings list; the result of the Structure Analyzer has
  no \<open>issues_found\<close> entry.
\<close>

theorem issues_found_matches_findings:
  "issues_found_consistent (check_security_issues code) ''security_issues'' \<and>
   issues_found_consistent (check_performance_issues code) ''performance_issues'' \<and>
   (lookup (check_documentation ast_parse cleandoc code) ''status'' = Some (VStr ''success'') \<longrightarrow>
      issues_found_consistent (check_documentation ast_parse cleandoc code) ''documentation_issues'') \<and>
   lookup (analyze_code_structure ast_parse cleandoc code) ''issues_found'' = None"
proof (intro conjI impI)
  show "issues_found_consistent (check_security_issues code) ''security_issues''"
    by (simp add: issues_found_consistent_def check_security_issues_def lookup_def Let_def)
  show "issues_found_consistent (check_performance_issues code) ''performance_issues''"
    by (simp add: issues_found_consistent_def check_performance_issues_def lookup_def Let_def)
  show "issues_found_consistent (check_documentation ast_parse cleandoc code) ''documentation_issues''"
    if "lookup (check_documentation ast_parse cleandoc code) ''status'' = Some (VStr ''success'')"
    using that
    by (cases "ast_parse code")
       (simp_all add: issues_found_consistent_def check_documentation_def lookup_def Let_def)
  show "lookup (analyze_code_structure ast_parse cleandoc code) ''issues_found'' = None"
  proof (cases "ast_parse code")
    case (Inl e)
    then show ?thesis
      by (cases e) (simp_all add: analyze_code_structure_def lookup_def)
  next
    case (Inr tree)
    then show ?thesis
      by (simp add: analyze_code_structure_def analysis_dict_def lookup_def)
  qed
qed

theorem issues_found_matches_findings_witness:
  "lookup (check_documentation parse_sample id []) ''status'' = Some (VStr ''success'') \<and>
   issues_found_consistent (check_documentation parse_sample id []) ''documentation_issues'' \<and>
   issues_found_consistent (check_security_issues []) ''security_issues'' \<and>
   issues_found_consistent (check_performance_issues []) ''performance_issues'' \<and>
   lookup (analyze_code_structure parse_sample id []) ''issues_found'' = None"
proof -
  have s: "lookup (check_documentation parse_sample id []) ''status'' = Some (VStr ''success'')"
    by (simp add: check_documentation_def parse_sample_def lookup_def Let_def)
  show ?thesis
    using issues_found_matches_findings [of "[]" parse_sample id] s by blast
qed

text \<open>
  C4 as stated fails for the Structure Analyzer: its success result on the empty input
  has a findings list under \<open>issues\<close> and no \<open>issues_found\<close> entry.
\<close>

theorem structure_result_has_no_issues_found:
  "lookup (analyze_code_structure parse_sample id []) ''status'' = Some (VStr ''success'') \<and>
   lookup (analyze_code_structure parse_sample id []) ''issues'' = Some (VList []) \<and>
   lookup (analyze_code_structure parse_sample id []) ''issues_found'' = None \<and>
   \<not> issues_found_consistent (analyze_code_structure parse_sample id []) ''issues''"
  unfolding structure_empty by (simp add: lookup_def issues_found_consistent_def)

text \<open>
  C8. When the parser raises, the Structure Analyzer and the Documentation Auditor both
  return a dictionary with exactly the entries \<open>status\<close>, which is \<open>error\<close>, and
  \<open>error_message\<close>, which ends with, or is, the text of the exception.
\<close>

theorem parse_failure_error_result:
  assumes "ast_parse code = Inl e"
  shows "analyze_code_structure ast_parse cleandoc code =
           [(''status'', VStr ''error''),
            (''error_message'',
               VStr ((case e of SyntaxError m \<Rightarrow> ''Syntax error in code: ''
                      | OtherException m \<Rightarrow> ''Error analyzing code: '') @ str_exception e))] \<and>
         check_documentation ast_parse cleandoc code =
           [(''status'', VStr ''error''),
            (''error_message'', VStr (str_exception e))]"
  using assms by (cases e) (simp_all add: analyze_code_structure_def check_documentation_def)

theorem parse_failure_error_result_witness:
  "parse_sample ''def f(:'' = Inl (SyntaxError ''invalid syntax (<unknown>, line 1)'') \<and>
   analyze_code_structure parse_sample id ''def f(:'' =
     [(''status'', VStr ''error''),
      (''error_message'', VStr ''Syntax error in code: invalid syntax (<unknown>, line 1)'')] \<and>
   check_documentation parse_sample id ''def f(:'' =
     [(''status'', VStr ''error''),
      (''error_message'', VStr ''invalid syntax (<unknown>, line 1)'')]"
proof -
  have p: "parse_sample ''def f(:'' = Inl (SyntaxError ''invalid syntax (<unknown>, line 1)'')"
    by (simp add: parse_sample_def)
  show ?thesis
    using parse_failure_error_result [where ast_parse = parse_sample and code = "''def f(:''" and cleandoc = id, OF p] p
    by simp
qed

text \<open>
  C9. A visit of an \<open>async def\<close> node changes neither the analysis of the Structure
  Analyzer nor the findings of the Documentation Auditor, and both analyzers give the
  result they would give on the walk with the \<open>async def\<close> nodes left out.
\<close>

theorem async_function_invisible:
  "structure_visit cleandoc analysis (AsyncFunctionDef n a b d r l) = analysis \<and>
   doc_visit cleandoc doc_issues (AsyncFunctionDef n a b d r l) = doc_issues \<and>
   structure_walk cleandoc code tree =
     foldl (structure_visit cleandoc)
       \<lparr>an_functions = [], an_classes = [], an_imports = [],
        an_lines_of_code = int (length (split_lines code)), an_issues = []\<rparr>
       (filter (\<lambda>node. \<not> is_AsyncFunctionDef node) (walk tree)) \<and>
   documentation_issues cleandoc tree =
     foldl (doc_visit cleandoc) [] (filter (\<lambda>node. \<not> is_AsyncFunctionDef node) (walk tree))"
proof (intro conjI)
  show "structure_visit cleandoc analysis (AsyncFunctionDef n a b d r l) = analysis"
    by (simp add: structure_visit_async)
  show "doc_visit cleandoc doc_issues (AsyncFunctionDef n a b d r l) = doc_issues"
    by (simp add: doc_visit_async)
  show "structure_walk cleandoc code tree =
     foldl (structure_visit cleandoc)
       \<lparr>an_functions = [], an_classes = [], an_imports = [],
        an_lines_of_code = int (length (split_lines code)), an_issues = []\<rparr>
       (filter (\<lambda>node. \<not> is_AsyncFunctionDef node) (walk tree))"
    unfolding structure_walk_def
    by (rule foldl_filter_skip [symmetric]) (simp add: structure_visit_async)
  show "documentation_issues cleandoc tree =
     foldl (doc_visit cleandoc) [] (filter (\<lambda>node. \<not> is_AsyncFunctionDef node) (walk tree))"
    unfolding documentation_issues_def
    by (rule foldl_filter_skip [symmetric]) (simp add: doc_visit_async)
qed

text \<open>
  C10. The visit of a \<open>from\<close>-import without a module appends \<open>None\<close>, and nothing else,
  to the imports; when the parsed tree holds such a node, the \<open>imports\<close> list of the
  result contains \<open>None\<close>.
\<close>

theorem relative_import_records_none:
  assumes "ast_parse code = Inr tree" and "ImportFrom None ns lv \<in> set (walk tree)"
  shows "an_imports (structure_visit cleandoc analysis (ImportFrom None ns lv)) =
           an_imports analysis @ [VNone] \<and>
         (\<exists>imports. lookup (analyze_code_structure ast_parse cleandoc code) ''imports'' =
              Some (VList imports) \<and> VNone \<in> set imports)"
proof
  show "an_imports (structure_visit cleandoc analysis (ImportFrom None ns lv)) =
           an_imports analysis @ [VNone]"
    by (simp add: imports_visit_from module_value_def)
  have "lookup (analyze_code_structure ast_parse cleandoc code) ''imports'' =
      Some (VList (an_imports (structure_walk cleandoc code tree)))"
    using assms(1) by (simp add: analyze_code_structure_def analysis_dict_def lookup_def)
  moreover have "VNone \<in> set (an_imports (structure_walk cleandoc code tree))"
    unfolding structure_walk_def using assms(2) by (rule imports_walk_from)
  ultimately show "\<exists>imports. lookup (analyze_code_structure ast_parse cleandoc code) ''imports'' =
              Some (VList imports) \<and> VNone \<in> set imports"
    by blast
qed

theorem relative_import_records_none_witness:
  "parse_sample ''from . import x'' = Inr (Module [ImportFrom None [Alias ''x'' None] 1]) \<and>
   ImportFrom None [Alias ''x'' None] 1 \<in> set (walk (Module [ImportFrom None [Alias ''x'' None] 1])) \<and>
   lookup (analyze_code_structure parse_sample id ''from . import x'') ''imports'' = Some (VList [VNone])"
proof -
  have p: "parse_sample ''from . import x'' = Inr (Module [ImportFrom None [Alias ''x'' None] 1])"
    by (simp add: parse_sample_def)
  have w: "ImportFrom None [Alias ''x'' None] 1 \<in> set (walk (Module [ImportFrom None [Alias ''x'' None] 1]))"
    by (simp add: walk_def)
  have e: "lookup (analyze_code_structure parse_sample id ''from . import x'') ''imports'' = Some (VList [VNone])"
    by (simp add: analyze_code_structure_def p structure_walk_def walk_def structure_visit_def
        analysis_dict_def lookup_def module_value_def del: split_lines.simps)
  from relative_import_records_none [where ast_parse = parse_sample and code = "''from . import x''" and cleandoc = id,
      OF p w] p w e
  show ?thesis by blast
qed

end
